theory Spec2Isabelle
  imports Main "HOL-Library.Word" "HOL-Library.Sublist"
begin

section \<open>The service-rules filter of plugins/filters/services/services.go\<close>

text \<open>
  The file embeds \<^verbatim>\<open>matches\<close>, \<^verbatim>\<open>RuleFilter.Map\<close>, \<^verbatim>\<open>loadServiceSignatures\<close> and
  \<^verbatim>\<open>NewRuleFilter\<close>. Go values are modelled by value: a struct is a record, a slice is a
  list, a Go \<^verbatim>\<open>map[string]string\<close> is the list of its entries in the order \<^verbatim>\<open>range\<close>
  visits them (the keys of a Go map are pairwise distinct), an \<^verbatim>\<open>error\<close> is its message,
  and a two-valued return \<^verbatim>\<open>(x, err)\<close> is a pair whose second component is \<open>None\<close> for
  \<^verbatim>\<open>nil\<close>. A run-time panic is an outcome of its own.
\<close>

subsection \<open>Data model\<close>

type_synonym error = string

datatype 'a outcome = Returns 'a | Panics

text \<open>One element of \<^verbatim>\<open>DiscoveryRuleset.Rules\<close>; \<open>'v\<close> is what \<^verbatim>\<open>Value interface{}\<close> holds.\<close>

record 'v Rule =
  Comparator :: string
  Path :: string
  Value :: 'v

record 'v DiscoveryRuleset =
  Name :: string
  Type :: string
  Rules :: "'v Rule list"

record 'v DiscoverySignatures =
  Name :: string
  Signatures :: "'v DiscoveryRuleset list"

text \<open>
  Modelled from the spec: the declaration of \<^verbatim>\<open>services.Instance\<close> (package
  \<^verbatim>\<open>neo-agent/services\<close>) is not part of the source file. The records below hold the
  fields that \<^verbatim>\<open>matches\<close> reads and \<^verbatim>\<open>Map\<close> writes, under the names the source uses:
  the identity fields of the container, the network endpoint with its two port numbers
  (unsigned 16-bit port numbers, which the source widens with \<^verbatim>\<open>uint64(...)\<close>), and the
  two label collections. \<^verbatim>\<open>PortType\<close> and \<^verbatim>\<open>ServiceType\<close> are string types. Fields that
  the source file neither reads nor writes are left out. Where two records have a field
  of the same name (\<^verbatim>\<open>Type\<close>, \<^verbatim>\<open>Labels\<close>, \<^verbatim>\<open>Name\<close>), the field is written with its
  record, as in \<open>Port.Type\<close> and \<open>Service.Type\<close>.
\<close>

type_synonym PortType = string
type_synonym ServiceType = string

record Container =
  ID :: string
  Names :: "string list"
  Image :: string
  Pod :: string
  Command :: string
  State :: string
  Labels :: "(string \<times> string) list"

record Port =
  IP :: string
  Type :: PortType
  PublicPort :: "16 word"
  PrivatePort :: "16 word"
  Labels :: "(string \<times> string) list"

record Service =
  Type :: ServiceType

record Instance =
  Container :: Container
  Port :: Port
  Service :: Service

text \<open>
  What the attribute map hands to the rule engine: a Go \<^verbatim>\<open>interface{}\<close> holding either a
  \<^verbatim>\<open>string\<close> or a \<^verbatim>\<open>services.PortType\<close> (the dynamic type of \<^verbatim>\<open>si.Port.Type\<close>).
\<close>

datatype iface = StringVal string | PortTypeVal PortType

type_synonym attrs = "string \<rightharpoonup> iface"

text \<open>
  The collaborators of \<^verbatim>\<open>matches\<close> that live outside the repository: \<^verbatim>\<open>json.Marshal\<close> on
  the rule list, \<^verbatim>\<open>ruler.NewRulerWithJson\<close> and the engine's \<^verbatim>\<open>Test\<close>. They are
  parameters of the model; \<open>'g\<close> is the engine value.
\<close>

record ('v, 'g) ruler =
  Marshal :: "'v Rule list \<Rightarrow> error + string"
  NewRulerWithJson :: "string \<Rightarrow> error + 'g"
  Test :: "'g \<Rightarrow> attrs \<Rightarrow> bool"

subsection \<open>\<^verbatim>\<open>strconv.FormatUint(x, 10)\<close>\<close>

definition digit :: "nat \<Rightarrow> char" where
  "digit d = ''0123456789'' ! d"

fun decimal :: "nat \<Rightarrow> string" where
  "decimal n = (if n < 10 then [digit n] else decimal (n div 10) @ [digit (n mod 10)])"

declare decimal.simps [simp del]

definition FormatUint :: "64 word \<Rightarrow> string" where
  "FormatUint w = decimal (unat w)"

text \<open>Reading a decimal string back, used to state what \<open>FormatUint\<close> renders.\<close>

definition digit_value :: "char \<Rightarrow> nat" where
  "digit_value c = of_char c - 48"

definition read_decimal :: "string \<Rightarrow> nat" where
  "read_decimal s = foldl (\<lambda>a c. 10 * a + digit_value c) 0 s"

subsection \<open>\<^verbatim>\<open>matches\<close>\<close>

text \<open>
  The two \<^verbatim>\<open>range\<close> loops of \<^verbatim>\<open>matches\<close> (lines 112-118): every label is stored under
  the prefix followed by its key, a later entry overwriting an earlier one of the same key.
\<close>

definition add_labels :: "string \<Rightarrow> (string \<times> string) list \<Rightarrow> attrs \<Rightarrow> attrs" where
  "add_labels pfx labels sm = fold (\<lambda>(key, val) m. m(pfx @ key \<mapsto> StringVal val)) labels sm"

text \<open>
  The map \<^verbatim>\<open>sm\<close> that \<^verbatim>\<open>matches\<close> builds (lines 99-118). The composite literal evaluates
  \<^verbatim>\<open>si.Container.Names[0]\<close>, which panics (index out of range) on an empty or nil slice:
  then there is no map, \<open>None\<close>.
\<close>

definition sm_fixed :: "Instance \<Rightarrow> string \<Rightarrow> attrs" where
  "sm_fixed si name0 =
     [''ContainerID'' \<mapsto> StringVal (ID (Container si)),
      ''ContainerName'' \<mapsto> StringVal name0,
      ''ContainerImage'' \<mapsto> StringVal (Image (Container si)),
      ''ContainerPod'' \<mapsto> StringVal (Pod (Container si)),
      ''ContainerCommand'' \<mapsto> StringVal (Command (Container si)),
      ''ContainerState'' \<mapsto> StringVal (State (Container si)),
      ''NetworkIP'' \<mapsto> StringVal (IP (Port si)),
      ''NetworkType'' \<mapsto> PortTypeVal (Port.Type (Port si)),
      ''NetworkPublicPort'' \<mapsto> StringVal (FormatUint (ucast (PublicPort (Port si)))),
      ''NetworkPrivatePort'' \<mapsto> StringVal (FormatUint (ucast (PrivatePort (Port si))))]"

definition matches_sm :: "Instance \<Rightarrow> attrs option" where
  "matches_sm si =
     (case Names (Container si) of
        [] \<Rightarrow> None
      | name0 # _ \<Rightarrow>
          Some (add_labels ''NetworkLabel-'' (Port.Labels (Port si))
                 (add_labels ''ContainerLabel-'' (Container.Labels (Container si))
                   (sm_fixed si name0))))"

text \<open>
  \<^verbatim>\<open>matches\<close> (lines 88-121): the rules are serialised and compiled first, each failure
  returning \<^verbatim>\<open>false, err\<close>; then the map is built and the engine's verdict is returned
  with a nil error.
\<close>

definition matches :: "('v, 'g) ruler \<Rightarrow> Instance \<Rightarrow> 'v DiscoveryRuleset \<Rightarrow> (bool \<times> error option) outcome" where
  "matches E si ruleset =
     (case Marshal E (Rules ruleset) of
        Inl err \<Rightarrow> Returns (False, Some err)
      | Inr jsonRules \<Rightarrow>
          (case NewRulerWithJson E jsonRules of
             Inl err \<Rightarrow> Returns (False, Some err)
           | Inr engine \<Rightarrow>
               (case matches_sm si of
                  None \<Rightarrow> Panics
                | Some sm \<Rightarrow> Returns (Test E engine sm, None))))"

subsection \<open>\<^verbatim>\<open>RuleFilter.Map\<close>\<close>

text \<open>\<open>'p\<close> is the embedded \<^verbatim>\<open>plugins.Plugin\<close>, which \<^verbatim>\<open>Map\<close> does not touch.\<close>

record ('v, 'p) RuleFilter =
  Plugin :: 'p
  serviceRules :: "'v DiscoverySignatures list"

text \<open>
  How the two inner loops of \<^verbatim>\<open>Map\<close> leave one service instance: \<^verbatim>\<open>continue OUTER\<close>
  after a match (with the type to assign), falling out of the loops without a match,
  \<^verbatim>\<open>return nil, err\<close>, or a panic raised inside \<^verbatim>\<open>matches\<close>.
\<close>

datatype scan = Matched ServiceType | NoMatch | Failed error | Panicked

text \<open>\<^verbatim>\<open>for _, ruleset := range signature.Signatures\<close> (lines 131-145).\<close>

fun rulesets_loop :: "('v, 'g) ruler \<Rightarrow> Instance \<Rightarrow> 'v DiscoveryRuleset list \<Rightarrow> scan" where
  "rulesets_loop E si [] = NoMatch"
| "rulesets_loop E si (ruleset # rest) =
     (case matches E si ruleset of
        Panics \<Rightarrow> Panicked
      | Returns r \<Rightarrow>
          (case snd r of
             Some err \<Rightarrow> Failed err
           | None \<Rightarrow>
               if fst r then Matched (DiscoveryRuleset.Type ruleset)
               else rulesets_loop E si rest))"

text \<open>\<^verbatim>\<open>for _, signature := range filter.serviceRules\<close> (lines 130-146).\<close>

fun signatures_loop :: "('v, 'g) ruler \<Rightarrow> Instance \<Rightarrow> 'v DiscoverySignatures list \<Rightarrow> scan" where
  "signatures_loop E si [] = NoMatch"
| "signatures_loop E si (signature # rest) =
     (case rulesets_loop E si (Signatures signature) of
        NoMatch \<Rightarrow> signatures_loop E si rest
      | Matched t \<Rightarrow> Matched t
      | Failed err \<Rightarrow> Failed err
      | Panicked \<Rightarrow> Panicked)"

text \<open>\<^verbatim>\<open>sis[i].Service.Type = services.ServiceType(ruleset.Type)\<close> (line 140).\<close>

definition assign_type :: "Instance \<Rightarrow> ServiceType \<Rightarrow> Instance" where
  "assign_type si t = si\<lparr>Service := (Service si)\<lparr>Service.Type := t\<rparr>\<rparr>"

text \<open>
  The outer loop \<^verbatim>\<open>for i := range sis\<close>, from index \<open>i\<close> on. The slice \<open>sis\<close> is the
  caller's: the model returns it as the call leaves it, next to what the call returns
  (or the panic). The appended element is the value of \<^verbatim>\<open>sis[i]\<close> after the assignment.
\<close>

function Map_loop ::
  "('v, 'g) ruler \<Rightarrow> ('v, 'p) RuleFilter \<Rightarrow> Instance list \<Rightarrow> nat \<Rightarrow> Instance list
     \<Rightarrow> Instance list \<times> (Instance list option \<times> error option) outcome" where
  "Map_loop E rf sis i applicableServices =
     (if i < length sis then
        (case signatures_loop E (sis ! i) (serviceRules rf) of
           Panicked \<Rightarrow> (sis, Panics)
         | Failed err \<Rightarrow> (sis, Returns (None, Some err))
         | NoMatch \<Rightarrow> Map_loop E rf sis (Suc i) applicableServices
         | Matched t \<Rightarrow>
             Map_loop E rf (sis[i := assign_type (sis ! i) t]) (Suc i)
               (applicableServices @ [assign_type (sis ! i) t]))
      else (sis, Returns (Some applicableServices, None)))"
  by pat_completeness auto
termination
  by (relation "measure (\<lambda>(E, rf, sis, i, acc). length sis - i)") auto

declare Map_loop.simps [simp del]

definition Map ::
  "('v, 'g) ruler \<Rightarrow> ('v, 'p) RuleFilter \<Rightarrow> Instance list
     \<Rightarrow> Instance list \<times> (Instance list option \<times> error option) outcome" where
  "Map E rf sis = Map_loop E rf sis 0 []"

text \<open>
  The same loop read along the list instead of by index: the instances still to visit
  and the output so far. \<open>Map_loop_drop\<close> below shows that \<open>Map_loop\<close> computes it.
\<close>

fun Map_list ::
  "('v, 'g) ruler \<Rightarrow> ('v, 'p) RuleFilter \<Rightarrow> Instance list \<Rightarrow> Instance list
     \<Rightarrow> Instance list \<times> (Instance list option \<times> error option) outcome" where
  "Map_list E rf [] acc = ([], Returns (Some acc, None))"
| "Map_list E rf (si # rest) acc =
     (case signatures_loop E si (serviceRules rf) of
        Panicked \<Rightarrow> (si # rest, Panics)
      | Failed err \<Rightarrow> (si # rest, Returns (None, Some err))
      | NoMatch \<Rightarrow> (case Map_list E rf rest acc of (rest', r) \<Rightarrow> (si # rest', r))
      | Matched t \<Rightarrow>
          (case Map_list E rf rest (acc @ [assign_type si t]) of
             (rest', r) \<Rightarrow> (assign_type si t # rest', r)))"

text \<open>What the loops decide for one instance, and the instance as \<^verbatim>\<open>Map\<close> leaves it.\<close>

definition classify :: "('v, 'g) ruler \<Rightarrow> ('v, 'p) RuleFilter \<Rightarrow> Instance \<Rightarrow> scan" where
  "classify E rf si = signatures_loop E si (serviceRules rf)"

definition is_Matched :: "scan \<Rightarrow> bool" where
  "is_Matched c = (case c of Matched t \<Rightarrow> True | _ \<Rightarrow> False)"

definition completes :: "scan \<Rightarrow> bool" where
  "completes c = (case c of Matched t \<Rightarrow> True | NoMatch \<Rightarrow> True | _ \<Rightarrow> False)"

definition marked :: "('v, 'g) ruler \<Rightarrow> ('v, 'p) RuleFilter \<Rightarrow> Instance \<Rightarrow> Instance" where
  "marked E rf si = (case classify E rf si of Matched t \<Rightarrow> assign_type si t | _ \<Rightarrow> si)"

definition halt :: "scan \<Rightarrow> (Instance list option \<times> error option) outcome" where
  "halt c = (case c of Failed err \<Rightarrow> Returns (None, Some err) | _ \<Rightarrow> Panics)"

text \<open>All rulesets of the store, in the order the two inner loops visit them.\<close>

definition all_rulesets :: "('v, 'p) RuleFilter \<Rightarrow> 'v DiscoveryRuleset list" where
  "all_rulesets rf = concat (map Signatures (serviceRules rf))"

subsection \<open>\<^verbatim>\<open>loadServiceSignatures\<close> and \<^verbatim>\<open>NewRuleFilter\<close>\<close>

text \<open>
  The collaborators of construction: \<^verbatim>\<open>plugins.NewPlugin\<close>,
  \<^verbatim>\<open>plugin.Config.GetStringSlice\<close>, \<^verbatim>\<open>ioutil.ReadFile\<close> and \<^verbatim>\<open>json.Unmarshal\<close> into a
  \<^verbatim>\<open>DiscoverySignatures\<close> (which yields the value it filled in and the error). \<open>'c\<close> is
  the configuration, \<open>'p\<close> the plugin. The files are taken not to change while the
  filter is built. \<^verbatim>\<open>log.Printf\<close> is left out.
\<close>

record ('c, 'p, 'v) host =
  NewPlugin :: "string \<Rightarrow> 'c \<Rightarrow> error + 'p"
  GetStringSlice :: "'p \<Rightarrow> string \<Rightarrow> string list"
  ReadFile :: "string \<Rightarrow> error + string"
  Unmarshal :: "string \<Rightarrow> 'v DiscoverySignatures \<times> error option"

definition zero_signatures :: "'v DiscoverySignatures" where
  "zero_signatures = \<lparr>DiscoverySignatures.Name = [], Signatures = []\<rparr>"

definition loadServiceSignatures ::
  "('c, 'p, 'v) host \<Rightarrow> string \<Rightarrow> 'v DiscoverySignatures \<times> error option" where
  "loadServiceSignatures H servicesFile =
     (case ReadFile H servicesFile of
        Inl err \<Rightarrow> (zero_signatures, Some err)
      | Inr jsonContent \<Rightarrow>
          (case Unmarshal H jsonContent of
             (signatures, Some err) \<Rightarrow> (signatures, Some err)
           | (signatures, None) \<Rightarrow> (signatures, None)))"

text \<open>\<^verbatim>\<open>for _, servicesFile := range servicesFiles\<close> (lines 61-68).\<close>

fun load_loop ::
  "('c, 'p, 'v) host \<Rightarrow> string list \<Rightarrow> 'v DiscoverySignatures list
     \<Rightarrow> 'v DiscoverySignatures list \<times> error option" where
  "load_loop H [] signatures = (signatures, None)"
| "load_loop H (servicesFile # rest) signatures =
     (case loadServiceSignatures H servicesFile of
        (loaded, Some err) \<Rightarrow> (signatures, Some err)
      | (loaded, None) \<Rightarrow> load_loop H rest (signatures @ [loaded]))"

definition NewRuleFilter ::
  "('c, 'p, 'v) host \<Rightarrow> string \<Rightarrow> 'c \<Rightarrow> ('v, 'p) RuleFilter option \<times> error option" where
  "NewRuleFilter H name config =
     (case NewPlugin H name config of
        Inl err \<Rightarrow> (None, Some err)
      | Inr plugin \<Rightarrow>
          (let servicesFiles = GetStringSlice H plugin ''servicesfiles'' in
           if length servicesFiles = 0
           then (None, Some ''servicesFiles configuration value missing'')
           else (case load_loop H servicesFiles [] of
                   (signatures, Some err) \<Rightarrow> (None, Some err)
                 | (signatures, None) \<Rightarrow>
                     (Some \<lparr>Plugin = plugin, serviceRules = signatures\<rparr>, None))))"

text \<open>A source loads when it can be read and its content decodes without error.\<close>

definition loads :: "('c, 'p, 'v) host \<Rightarrow> string \<Rightarrow> bool" where
  "loads H servicesFile =
     (case ReadFile H servicesFile of
        Inl err \<Rightarrow> False
      | Inr jsonContent \<Rightarrow> snd (Unmarshal H jsonContent) = None)"

subsection \<open>Concrete rule stores and instances\<close>

text \<open>
  A small stand-in for the engine, used where the theorems are run on concrete data: the
  serialised form of a rule list is the concatenation of its values, the text
  \<open>''invalid''\<close> does not compile, and a compiled rule holds exactly when it equals the
  \<^verbatim>\<open>ContainerImage\<close> attribute.
\<close>

definition image_ruler :: "(string, string) ruler" where
  "image_ruler =
     \<lparr>Marshal = (\<lambda>rules. Inr (concat (map Value rules))),
      NewRulerWithJson = (\<lambda>j. if j = ''invalid'' then Inl ''cannot compile'' else Inr j),
      Test = (\<lambda>engine sm. sm ''ContainerImage'' = Some (StringVal engine))\<rparr>"

definition image_rules :: "string \<Rightarrow> string \<Rightarrow> string DiscoveryRuleset" where
  "image_rules t img =
     \<lparr>DiscoveryRuleset.Name = t, DiscoveryRuleset.Type = t,
      Rules = [\<lparr>Comparator = ''equals'', Path = ''ContainerImage'', Value = img\<rparr>]\<rparr>"

definition store :: "string DiscoverySignatures list \<Rightarrow> (string, unit) RuleFilter" where
  "store ss = \<lparr>Plugin = (), serviceRules = ss\<rparr>"

definition fileA :: "string DiscoverySignatures" where
  "fileA = \<lparr>DiscoverySignatures.Name = ''fileA'', Signatures = [image_rules ''A'' ''redis:6'']\<rparr>"

definition fileB :: "string DiscoverySignatures" where
  "fileB = \<lparr>DiscoverySignatures.Name = ''fileB'',
            Signatures = [image_rules ''B'' ''redis:6'', image_rules ''broken'' ''invalid'']\<rparr>"

definition instance_of :: "string list \<Rightarrow> string \<Rightarrow> Instance" where
  "instance_of names img =
     \<lparr>Container = \<lparr>ID = ''c1'', Names = names, Image = img, Pod = ''pod-1'',
                    Command = ''run'', State = ''running'',
                    Container.Labels = [(''app'', ''web'')]\<rparr>,
      Port = \<lparr>IP = ''10.0.0.1'', Port.Type = ''TCP'', PublicPort = 8080, PrivatePort = 80,
               Port.Labels = [(''app'', ''http'')]\<rparr>,
      Service = \<lparr>Service.Type = []\<rparr>\<rparr>"

definition redis :: Instance where
  "redis = instance_of [''/cache''] ''redis:6''"

definition postgres :: Instance where
  "postgres = instance_of [''/db''] ''postgres:13''"

definition fileC :: "string DiscoverySignatures" where
  "fileC = \<lparr>DiscoverySignatures.Name = ''fileC'',
            Signatures = [image_rules ''broken'' ''invalid'', image_rules ''pg'' ''postgres:13'']\<rparr>"

subsection \<open>The keys of the attribute map\<close>

text \<open>The keys of the composite literal of \<^verbatim>\<open>matches\<close> (lines 100-109).\<close>

definition fixed_keys :: "string set" where
  "fixed_keys =
     {''ContainerID'', ''ContainerName'', ''ContainerImage'', ''ContainerPod'',
      ''ContainerCommand'', ''ContainerState'', ''NetworkIP'', ''NetworkType'',
      ''NetworkPublicPort'', ''NetworkPrivatePort''}"

text \<open>
  The fixed keys as the specification lists them: identity id, first configured name,
  image/origin, command, lifecycle state, endpoint address, endpoint kind, public port
  and private port.
\<close>

definition spec_fixed_keys :: "string set" where
  "spec_fixed_keys =
     {''ContainerID'', ''ContainerName'', ''ContainerImage'',
      ''ContainerCommand'', ''ContainerState'', ''NetworkIP'', ''NetworkType'',
      ''NetworkPublicPort'', ''NetworkPrivatePort''}"

text \<open>A key written by one of the two label loops (lines 112-118).\<close>

definition label_key :: "string \<Rightarrow> bool" where
  "label_key k = (prefix ''ContainerLabel-'' k \<or> prefix ''NetworkLabel-'' k)"

definition non_label_keys :: "attrs \<Rightarrow> string set" where
  "non_label_keys sm = {k \<in> dom sm. \<not> label_key k}"

text \<open>
  A host for concrete runs: the configuration is the list of files itself, two files
  hold the sources \<open>fileA\<close> and \<open>fileB\<close>, a third one holds text that does not decode,
  and no other file exists.
\<close>

definition files_host :: "(string list, string list, string) host" where
  "files_host =
     \<lparr>NewPlugin = (\<lambda>name config. Inr config),
      GetStringSlice = (\<lambda>plugin key. if key = ''servicesfiles'' then plugin else []),
      ReadFile = (\<lambda>path. if path = ''a.json'' then Inr ''A''
                         else if path = ''b.json'' then Inr ''B''
                         else if path = ''bad.json'' then Inr ''{''
                         else Inl ''no such file''),
      Unmarshal = (\<lambda>content. if content = ''A'' then (fileA, None)
                             else if content = ''B'' then (fileB, None)
                             else (zero_signatures, Some ''unexpected end of JSON input''))\<rparr>"

section \<open>Properties\<close>

subsection \<open>The loops of \<^verbatim>\<open>Map\<close>\<close>

text \<open>The index loop visits the instances from \<open>i\<close> on as \<open>Map_list\<close> does.\<close>


lemma Map_loop_drop:
  "i \<le> length sis \<Longrightarrow>
   Map_loop E rf sis i acc =
     (case Map_list E rf (drop i sis) acc of (rest', r) \<Rightarrow> (take i sis @ rest', r))"
proof (induction E rf sis i acc rule: Map_loop.induct)
  case (1 E rf sis i acc)
  show ?case
  proof (cases "i < length sis")
    case False
    with "1.prems" show ?thesis by (simp add: Map_loop.simps)
  next
    case True
    then have d: "drop i sis = sis ! i # drop (Suc i) sis"
      by (simp add: Cons_nth_drop_Suc)
    have t: "take (Suc i) sis = take i sis @ [sis ! i]"
      using True by (simp add: take_Suc_conv_app_nth)
    show ?thesis
    proof (cases "signatures_loop E (sis ! i) (serviceRules rf)")
      case (Matched t')
      let ?x = "assign_type (sis ! i) t'"
      have "Map_loop E rf sis i acc = Map_loop E rf (sis[i := ?x]) (Suc i) (acc @ [?x])"
        using True Matched by (subst Map_loop.simps) simp
      also have "\<dots> = (case Map_list E rf (drop (Suc i) (sis[i := ?x])) (acc @ [?x]) of
                          (rest', r) \<Rightarrow> (take (Suc i) (sis[i := ?x]) @ rest', r))"
        using "1.IH"(1)[OF True Matched] True by simp
      also have "drop (Suc i) (sis[i := ?x]) = drop (Suc i) sis" by simp
      also have "take (Suc i) (sis[i := ?x]) = take i sis @ [?x]"
        using True by (simp add: take_Suc_conv_app_nth)
      finally show ?thesis using Matched d by (simp split: prod.splits)
    next
      case NoMatch
      have "Map_loop E rf sis i acc = Map_loop E rf sis (Suc i) acc"
        using True NoMatch by (subst Map_loop.simps) simp
      also have "\<dots> = (case Map_list E rf (drop (Suc i) sis) acc of
                          (rest', r) \<Rightarrow> (take (Suc i) sis @ rest', r))"
        using "1.IH"(2)[OF True NoMatch] True by simp
      finally show ?thesis using NoMatch d t by (simp split: prod.splits)
    next
      case (Failed err)
      then show ?thesis using True d by (subst Map_loop.simps) (simp add: id_take_nth_drop [symmetric])
    next
      case Panicked
      then show ?thesis using True d by (subst Map_loop.simps) (simp add: id_take_nth_drop [symmetric])
    qed
  qed
qed

lemma Map_eq_Map_list: "Map E rf sis = Map_list E rf sis []"
  by (simp add: Map_def Map_loop_drop)

lemma Map_list_completes:
  "\<forall>si\<in>set xs. completes (classify E rf si) \<Longrightarrow>
   Map_list E rf xs acc =
     (map (marked E rf) xs,
      Returns (Some (acc @ map (marked E rf) (filter (\<lambda>si. is_Matched (classify E rf si)) xs)), None))"
  by (induction xs arbitrary: acc)
     (auto simp: classify_def marked_def completes_def is_Matched_def split: scan.splits)

lemma Map_list_stops:
  "\<forall>si\<in>set xs. completes (classify E rf si) \<Longrightarrow> \<not> completes (classify E rf y) \<Longrightarrow>
   Map_list E rf (xs @ y # ys) acc = (map (marked E rf) xs @ y # ys, halt (classify E rf y))"
  by (induction xs arbitrary: acc)
     (auto simp: classify_def marked_def completes_def is_Matched_def halt_def split: scan.splits)

lemma Map_completes:
  "\<forall>si\<in>set sis. completes (classify E rf si) \<Longrightarrow>
   Map E rf sis =
     (map (marked E rf) sis,
      Returns (Some (map (marked E rf) (filter (\<lambda>si. is_Matched (classify E rf si)) sis)), None))"
  by (simp add: Map_eq_Map_list Map_list_completes)

lemma Map_stops:
  "\<forall>si\<in>set xs. completes (classify E rf si) \<Longrightarrow> \<not> completes (classify E rf y) \<Longrightarrow>
   Map E rf (xs @ y # ys) = (map (marked E rf) xs @ y # ys, halt (classify E rf y))"
  by (simp add: Map_eq_Map_list Map_list_stops)

lemma halt_not_success: "halt c \<noteq> Returns (Some out, None)"
  by (simp add: halt_def split: scan.splits)

lemma Map_success_completes:
  assumes "Map E rf sis = (sis', Returns (Some out, None))"
  shows "\<forall>si\<in>set sis. completes (classify E rf si)"
proof (rule ccontr)
  assume "\<not> (\<forall>si\<in>set sis. completes (classify E rf si))"
  then have "\<exists>si\<in>set sis. \<not> completes (classify E rf si)" by simp
  from split_list_first_prop [OF this] obtain xs y ys where
    "sis = xs @ y # ys" "\<not> completes (classify E rf y)" "\<forall>si\<in>set xs. completes (classify E rf si)"
    by auto
  with assms show False by (simp add: Map_stops halt_not_success)
qed

lemma rulesets_loop_append:
  "rulesets_loop E si (xs @ ys) =
     (case rulesets_loop E si xs of NoMatch \<Rightarrow> rulesets_loop E si ys | r \<Rightarrow> r)"
  by (induction xs) (auto split: outcome.splits option.splits)

lemma signatures_loop_concat:
  "signatures_loop E si ss = rulesets_loop E si (concat (map Signatures ss))"
  by (induction ss) (auto simp: rulesets_loop_append split: scan.splits)

lemma classify_all_rulesets: "classify E rf si = rulesets_loop E si (all_rulesets rf)"
  by (simp add: classify_def all_rulesets_def signatures_loop_concat)

lemma rulesets_loop_NoMatch:
  "rulesets_loop E si rs = NoMatch \<longleftrightarrow> (\<forall>r\<in>set rs. matches E si r = Returns (False, None))"
  by (induction rs) (auto split: outcome.splits option.splits simp: prod_eq_iff)

lemma rulesets_loop_first:
  assumes "\<forall>r\<in>set pre. matches E si r = Returns (False, None)"
    and "matches E si R = Returns (True, None)"
  shows "rulesets_loop E si (pre @ R # post) = Matched (DiscoveryRuleset.Type R)"
  using assms by (simp add: rulesets_loop_append rulesets_loop_NoMatch [THEN iffD2])

lemma rulesets_loop_first_error:
  assumes "\<forall>r\<in>set pre. matches E si r = Returns (False, None)"
    and "matches E si R = Returns (b, Some err)"
  shows "rulesets_loop E si (pre @ R # post) = Failed err"
  using assms by (simp add: rulesets_loop_append rulesets_loop_NoMatch [THEN iffD2])

lemma matches_sm_assign_type [simp]: "matches_sm (assign_type si t) = matches_sm si"
  by (simp add: matches_sm_def assign_type_def sm_fixed_def split: list.splits)

lemma matches_assign_type [simp]: "matches E (assign_type si t) r = matches E si r"
  by (simp add: matches_def split: sum.splits)

lemma rulesets_loop_assign_type [simp]:
  "rulesets_loop E (assign_type si t) rs = rulesets_loop E si rs"
  by (induction rs) (simp_all split: outcome.splits option.splits)

lemma classify_assign_type [simp]: "classify E rf (assign_type si t) = classify E rf si"
  by (simp add: classify_all_rulesets)

lemma classify_marked [simp]: "classify E rf (marked E rf si) = classify E rf si"
  by (simp add: marked_def split: scan.splits)

lemma assign_type_twice [simp]: "assign_type (assign_type si t) t = assign_type si t"
  by (simp add: assign_type_def)

lemma marked_marked [simp]: "marked E rf (marked E rf si) = marked E rf si"
  by (simp add: marked_def split: scan.splits)



lemma Type_assign_type [simp]: "Service.Type (Service (assign_type si t)) = t"
  by (simp add: assign_type_def)

lemma classify_first:
  assumes "all_rulesets rf = pre @ R1 # post"
    and "\<forall>r\<in>set pre. matches E si r = Returns (False, None)"
    and "matches E si R1 = Returns (True, None)"
  shows "classify E rf si = Matched (DiscoveryRuleset.Type R1)"
  using assms by (simp add: classify_all_rulesets rulesets_loop_first)

lemma Map_success_shape:
  assumes "Map E rf sis = (sis', Returns (Some out, None))"
  shows "sis' = map (marked E rf) sis"
    and "out = map (marked E rf) (filter (\<lambda>si. is_Matched (classify E rf si)) sis)"
  using assms Map_completes [OF Map_success_completes [OF assms]] by simp_all

text \<open>Unfolding the concrete data and the model on it.\<close>

lemmas fixture_defs = store_def fileA_def fileB_def image_rules_def image_ruler_def redis_def
  postgres_def instance_of_def

lemmas eval_defs = Map_eq_Map_list matches_def matches_sm_def add_labels_def sm_fixed_def
  assign_type_def all_rulesets_def

lemma classify_first_error:
  assumes "all_rulesets rf = pre @ R # post"
    and "\<forall>r\<in>set pre. matches E si r = Returns (False, None)"
    and "matches E si R = Returns (b, Some err)"
  shows "classify E rf si = Failed err"
  using assms by (simp add: classify_all_rulesets rulesets_loop_first_error)

lemma rulesets_loop_Failed:
  "rulesets_loop E si rs = Failed err \<Longrightarrow> \<exists>r\<in>set rs. \<exists>b. matches E si r = Returns (b, Some err)"
  by (induction rs) (auto split: outcome.splits option.splits if_splits simp: prod_eq_iff)

lemma Map_cases:
  obtains (completes) "\<forall>si\<in>set sis. completes (classify E rf si)"
  | (stops) xs y ys where "sis = xs @ y # ys" "\<forall>si\<in>set xs. completes (classify E rf si)"
      "\<not> completes (classify E rf y)"
proof (cases "\<forall>si\<in>set sis. completes (classify E rf si)")
  case True
  then show ?thesis by (rule completes)
next
  case False
  then have "\<exists>si\<in>set sis. \<not> completes (classify E rf si)" by simp
  from split_list_first_prop [OF this] obtain xs y ys where
    "sis = xs @ y # ys" "\<not> completes (classify E rf y)" "\<forall>si\<in>set xs. completes (classify E rf si)"
    by auto
  then show ?thesis by (intro stops)
qed

lemma halt_error: "halt c = Returns (out, e) \<Longrightarrow> out = None \<and> c = Failed (the e) \<and> e \<noteq> None"
  by (auto simp: halt_def split: scan.splits)

lemma classify_NoMatch:
  "classify E rf si = NoMatch \<longleftrightarrow> (\<forall>r\<in>set (all_rulesets rf). matches E si r = Returns (False, None))"
  by (simp add: classify_all_rulesets rulesets_loop_NoMatch)

lemma Map_list_skip:
  assumes "classify E rf si = NoMatch"
  shows "Map_list E rf (xs @ si # ys) acc =
     (case Map_list E rf (xs @ ys) acc of
        (zs, r) \<Rightarrow> (take (length xs) zs @ si # drop (length xs) zs, r))"
proof (induction xs arbitrary: acc)
  case Nil
  with assms show ?case by (simp add: classify_def split: prod.splits)
next
  case (Cons x xs)
  then show ?case by (simp add: classify_def split: scan.splits prod.splits)
qed

lemma marked_eq_NoMatch:
  assumes "classify E rf si = NoMatch" "is_Matched (classify E rf x)"
  shows "marked E rf x \<noteq> si"
proof
  assume "marked E rf x = si"
  then have "classify E rf (marked E rf x) = NoMatch" using assms(1) by simp
  then show False using assms(2) by (simp add: is_Matched_def)
qed

lemma filter_Matched_marked:
  "filter (\<lambda>si. is_Matched (classify E rf si)) (map (marked E rf) sis) =
   map (marked E rf) (filter (\<lambda>si. is_Matched (classify E rf si)) sis)"
  by (simp add: filter_map o_def)

lemma matches_depends_on_sm:
  "matches_sm si = matches_sm si' \<Longrightarrow> matches E si r = matches E si' r"
  by (simp add: matches_def split: sum.splits)

lemma rulesets_loop_depends_on_sm:
  "matches_sm si = matches_sm si' \<Longrightarrow> rulesets_loop E si rs = rulesets_loop E si' rs"
  by (induction rs)
     (simp_all add: matches_depends_on_sm [of si si'] split: outcome.splits option.splits)

lemma Map_again: "Map E rf (fst (Map E rf sis)) = Map E rf sis"
proof (cases sis E rf rule: Map_cases)
  case completes
  then have "\<forall>si\<in>set (map (marked E rf) sis). completes (classify E rf si)"
    by simp
  from Map_completes [OF this] Map_completes [OF completes] show ?thesis
    by (simp add: filter_Matched_marked)
next
  case (stops xs y ys)
  then have "\<forall>si\<in>set (map (marked E rf) xs). completes (classify E rf si)"
    by simp
  from Map_stops [OF this stops(3)] Map_stops [OF stops(2,3)] stops(1) show ?thesis
    by simp
qed

lemma halt_Failed: "halt c = Returns (None, Some err) \<Longrightarrow> c = Failed err"
  by (auto simp: halt_def split: scan.splits)

lemma marked_Matched: "classify E rf si = Matched t \<Longrightarrow> marked E rf si = assign_type si t"
  by (simp add: marked_def)

lemma marked_NoMatch: "classify E rf si = NoMatch \<Longrightarrow> marked E rf si = si"
  by (simp add: marked_def)

subsection \<open>Decimal rendering of the ports\<close>

lemma unat_uint64_of_port: "unat (ucast (p :: 16 word) :: 64 word) = unat p"
  by (simp add: unsigned_ucast_eq take_bit_nat_eq_self_iff) (use unsigned_less [of p, where ?'a = nat] in simp)

lemma digit_value_digit: "d < 10 \<Longrightarrow> digit_value (digit d) = d"
proof -
  assume "d < 10"
  then have "d \<in> {0, 1, 2, 3, 4, 5, 6, 7, 8, 9}" by auto
  then show ?thesis
    by (auto simp: digit_def digit_value_def)
qed

lemma digit_in_digits: "d < 10 \<Longrightarrow> digit d \<in> set ''0123456789''"
  unfolding digit_def by (rule nth_mem) simp

lemma read_decimal_snoc: "read_decimal (s @ [c]) = 10 * read_decimal s + digit_value c"
  by (simp add: read_decimal_def)

lemma read_decimal_decimal: "read_decimal (decimal n) = n"
proof (induction n rule: decimal.induct)
  case (1 n)
  show ?case
  proof (cases "n < 10")
    case True
    then show ?thesis
      by (subst decimal.simps) (simp add: read_decimal_def digit_value_digit)
  next
    case False
    have "read_decimal (decimal n) = 10 * read_decimal (decimal (n div 10)) + digit_value (digit (n mod 10))"
      using False by (subst decimal.simps) (simp add: read_decimal_snoc)
    also have "\<dots> = 10 * (n div 10) + n mod 10"
      using "1.IH" [OF False] by (simp add: digit_value_digit)
    finally show ?thesis by simp
  qed
qed

lemma decimal_digits: "set (decimal n) \<subseteq> set ''0123456789''"
proof (induction n rule: decimal.induct)
  case (1 n)
  show ?case
  proof (cases "n < 10")
    case True
    then show ?thesis
      using digit_in_digits [of n] by (subst decimal.simps) simp
  next
    case False
    then show ?thesis
      using "1.IH" [OF False] digit_in_digits [of "n mod 10"]
      by (subst decimal.simps) simp
  qed
qed

lemma decimal_nonempty: "decimal n \<noteq> []"
  by (subst decimal.simps) simp

subsection \<open>The attribute map\<close>

lemma add_labels_Cons:
  "add_labels p ((k, v) # ls) m = add_labels p ls (m(p @ k \<mapsto> StringVal v))"
  by (simp add: add_labels_def)

lemma add_labels_Nil [simp]: "add_labels p [] m = m"
  by (simp add: add_labels_def)

lemma dom_add_labels: "dom (add_labels p ls m) = dom m \<union> (\<lambda>k. p @ k) ` fst ` set ls"
proof (induction ls arbitrary: m)
  case Nil
  show ?case by simp
next
  case (Cons l ls)
  obtain k v where l: "l = (k, v)" by (cases l)
  show ?case unfolding l add_labels_Cons Cons.IH by auto
qed

lemma add_labels_other: "\<not> prefix p x \<Longrightarrow> add_labels p ls m x = m x"
proof (induction ls arbitrary: m)
  case Nil
  show ?case by simp
next
  case (Cons l ls)
  obtain k v where l: "l = (k, v)" by (cases l)
  from Cons.prems have "x \<noteq> p @ k" by auto
  with Cons show ?case unfolding l add_labels_Cons by simp
qed

lemma add_labels_absent:
  "x \<notin> (\<lambda>k. p @ k) ` fst ` set ls \<Longrightarrow> add_labels p ls m x = m x"
proof (induction ls arbitrary: m)
  case Nil
  show ?case by simp
next
  case (Cons l ls)
  obtain k v where l: "l = (k, v)" by (cases l)
  from Cons.prems have "x \<noteq> p @ k" "x \<notin> (\<lambda>k. p @ k) ` fst ` set ls"
    unfolding l by auto
  with Cons.IH show ?case unfolding l add_labels_Cons by simp
qed

lemma add_labels_member:
  "distinct (map fst ls) \<Longrightarrow> (k, v) \<in> set ls \<Longrightarrow> add_labels p ls m (p @ k) = Some (StringVal v)"
proof (induction ls arbitrary: m)
  case Nil
  then show ?case by simp
next
  case (Cons l ls)
  obtain k' v' where l: "l = (k', v')" by (cases l)
  show ?case
  proof (cases "(k, v) \<in> set ls")
    case True
    with Cons show ?thesis unfolding l add_labels_Cons by simp
  next
    case False
    with Cons.prems l have eq: "k' = k" "v' = v" by auto
    have fresh: "p @ k \<notin> (\<lambda>k. p @ k) ` fst ` set ls"
      using Cons.prems(1) l eq by auto
    show ?thesis unfolding l eq add_labels_Cons add_labels_absent [OF fresh] by simp
  qed
qed

text \<open>
  The order in which \<^verbatim>\<open>range\<close> visits the entries of a label map does not show in the
  attribute map.
\<close>

lemma add_labels_order:
  assumes "distinct (map fst ls)" "distinct (map fst ls')" "set ls = set ls'"
  shows "add_labels p ls m = add_labels p ls' m"
proof
  fix x
  show "add_labels p ls m x = add_labels p ls' m x"
  proof (cases "x \<in> (\<lambda>k. p @ k) ` fst ` set ls")
    case True
    then obtain k v where kv: "(k, v) \<in> set ls" "x = p @ k" by auto
    from kv(1) assms(3) have "(k, v) \<in> set ls'" by simp
    from add_labels_member [OF assms(1) kv(1)] add_labels_member [OF assms(2) this]
    show ?thesis unfolding kv(2) by simp
  next
    case False
    moreover from False assms(3) have "x \<notin> (\<lambda>k. p @ k) ` fst ` set ls'" by simp
    ultimately show ?thesis by (simp add: add_labels_absent)
  qed
qed

lemma dom_sm_fixed: "dom (sm_fixed si name0) = fixed_keys"
  unfolding sm_fixed_def fixed_keys_def by (simp add: insert_commute)

lemma fixed_not_label: "k \<in> fixed_keys \<Longrightarrow> \<not> label_key k"
  unfolding fixed_keys_def label_key_def by (elim insertE emptyE) simp_all

lemma label_key_Container [simp]: "label_key (''ContainerLabel-'' @ k)"
  by (simp add: label_key_def)

lemma label_key_Network [simp]: "label_key (''NetworkLabel-'' @ k)"
  by (simp add: label_key_def)

lemma matches_sm_Some:
  "matches_sm si = Some sm \<longleftrightarrow>
     Names (Container si) \<noteq> [] \<and>
     sm = add_labels ''NetworkLabel-'' (Port.Labels (Port si))
            (add_labels ''ContainerLabel-'' (Container.Labels (Container si))
              (sm_fixed si (hd (Names (Container si)))))"
  by (auto simp: matches_sm_def split: list.splits)

lemma sm_fixed_lookup:
  "\<not> label_key k \<Longrightarrow> matches_sm si = Some sm \<Longrightarrow> sm k = sm_fixed si (hd (Names (Container si))) k"
  by (simp add: matches_sm_Some label_key_def add_labels_other)

lemma non_label_keys_sm:
  assumes "matches_sm si = Some sm"
  shows "non_label_keys sm = fixed_keys"
proof -
  from assms have sm: "sm = add_labels ''NetworkLabel-'' (Port.Labels (Port si))
            (add_labels ''ContainerLabel-'' (Container.Labels (Container si))
              (sm_fixed si (hd (Names (Container si)))))"
    by (simp add: matches_sm_Some)
  have d: "dom sm = fixed_keys \<union> (\<lambda>k. ''ContainerLabel-'' @ k) ` fst ` set (Container.Labels (Container si))
          \<union> (\<lambda>k. ''NetworkLabel-'' @ k) ` fst ` set (Port.Labels (Port si))"
    unfolding sm by (simp only: dom_add_labels dom_sm_fixed)
  have "k \<in> non_label_keys sm \<longleftrightarrow> k \<in> fixed_keys" for k
  proof
    assume k: "k \<in> non_label_keys sm"
    then have n: "\<not> label_key k" by (simp add: non_label_keys_def)
    from k d consider "k \<in> fixed_keys" | x where "k = ''ContainerLabel-'' @ x"
      | x where "k = ''NetworkLabel-'' @ x"
      by (auto simp: non_label_keys_def)
    then show "k \<in> fixed_keys"
    proof cases
      case 1
      then show ?thesis .
    next
      case 2
      with n label_key_Container [of x] show ?thesis by simp
    next
      case 3
      with n label_key_Network [of x] show ?thesis by simp
    qed
  next
    assume "k \<in> fixed_keys"
    with d fixed_not_label [of k] show "k \<in> non_label_keys sm"
      by (simp add: non_label_keys_def)
  qed
  then show ?thesis by blast
qed

lemma FormatUint_port:
  "read_decimal (FormatUint (ucast (p :: 16 word))) = unat p"
  "set (FormatUint (ucast p)) \<subseteq> set ''0123456789''"
  "FormatUint (ucast p) \<noteq> []"
  by (simp_all only: FormatUint_def read_decimal_decimal unat_uint64_of_port decimal_digits
      decimal_nonempty not_False_eq_True)

lemma sm_fixed_values:
  assumes "matches_sm si = Some sm"
  shows "sm ''ContainerID'' = Some (StringVal (ID (Container si)))"
    and "sm ''ContainerName'' = Some (StringVal (Names (Container si) ! 0))"
    and "sm ''ContainerImage'' = Some (StringVal (Image (Container si)))"
    and "sm ''ContainerPod'' = Some (StringVal (Pod (Container si)))"
    and "sm ''ContainerCommand'' = Some (StringVal (Command (Container si)))"
    and "sm ''ContainerState'' = Some (StringVal (State (Container si)))"
    and "sm ''NetworkIP'' = Some (StringVal (IP (Port si)))"
    and "sm ''NetworkType'' = Some (PortTypeVal (Port.Type (Port si)))"
    and "sm ''NetworkPublicPort'' = Some (StringVal (FormatUint (ucast (PublicPort (Port si)))))"
    and "sm ''NetworkPrivatePort'' = Some (StringVal (FormatUint (ucast (PrivatePort (Port si)))))"
proof -
  from assms have n: "Names (Container si) \<noteq> []" by (simp add: matches_sm_Some)
  then have h: "hd (Names (Container si)) = Names (Container si) ! 0" by (simp add: hd_conv_nth)
  have l: "sm k = sm_fixed si (Names (Container si) ! 0) k" if "\<not> label_key k" for k
    using sm_fixed_lookup [OF that assms] h by simp
  show "sm ''ContainerID'' = Some (StringVal (ID (Container si)))"
    by (subst l) (simp_all add: label_key_def sm_fixed_def)
  show "sm ''ContainerName'' = Some (StringVal (Names (Container si) ! 0))"
    by (subst l) (simp_all add: label_key_def sm_fixed_def)
  show "sm ''ContainerImage'' = Some (StringVal (Image (Container si)))"
    by (subst l) (simp_all add: label_key_def sm_fixed_def)
  show "sm ''ContainerPod'' = Some (StringVal (Pod (Container si)))"
    by (subst l) (simp_all add: label_key_def sm_fixed_def)
  show "sm ''ContainerCommand'' = Some (StringVal (Command (Container si)))"
    by (subst l) (simp_all add: label_key_def sm_fixed_def)
  show "sm ''ContainerState'' = Some (StringVal (State (Container si)))"
    by (subst l) (simp_all add: label_key_def sm_fixed_def)
  show "sm ''NetworkIP'' = Some (StringVal (IP (Port si)))"
    by (subst l) (simp_all add: label_key_def sm_fixed_def)
  show "sm ''NetworkType'' = Some (PortTypeVal (Port.Type (Port si)))"
    by (subst l) (simp_all add: label_key_def sm_fixed_def)
  show "sm ''NetworkPublicPort'' = Some (StringVal (FormatUint (ucast (PublicPort (Port si)))))"
    by (subst l) (simp_all add: label_key_def sm_fixed_def)
  show "sm ''NetworkPrivatePort'' = Some (StringVal (FormatUint (ucast (PrivatePort (Port si)))))"
    by (subst l) (simp_all add: label_key_def sm_fixed_def)
qed

lemma sm_labels:
  assumes "matches_sm si = Some sm"
  shows "distinct (map fst (Container.Labels (Container si))) \<Longrightarrow>
         (k, v) \<in> set (Container.Labels (Container si)) \<Longrightarrow>
         sm (''ContainerLabel-'' @ k) = Some (StringVal v)"
    and "distinct (map fst (Port.Labels (Port si))) \<Longrightarrow>
         (k, w) \<in> set (Port.Labels (Port si)) \<Longrightarrow>
         sm (''NetworkLabel-'' @ k) = Some (StringVal w)"
proof -
  from assms have sm: "sm = add_labels ''NetworkLabel-'' (Port.Labels (Port si))
            (add_labels ''ContainerLabel-'' (Container.Labels (Container si))
              (sm_fixed si (hd (Names (Container si)))))"
    by (simp add: matches_sm_Some)
  have np: "\<not> prefix ''NetworkLabel-'' (''ContainerLabel-'' @ k)" by simp
  show "sm (''ContainerLabel-'' @ k) = Some (StringVal v)"
    if "distinct (map fst (Container.Labels (Container si)))"
      "(k, v) \<in> set (Container.Labels (Container si))"
    unfolding sm by (simp only: add_labels_other [OF np] add_labels_member [OF that])
  show "sm (''NetworkLabel-'' @ k) = Some (StringVal w)"
    if "distinct (map fst (Port.Labels (Port si)))" "(k, w) \<in> set (Port.Labels (Port si))"
    unfolding sm by (simp only: add_labels_member [OF that])
qed

subsection \<open>Loading the rule sources\<close>

lemma loads_iff: "loads H f \<longleftrightarrow> snd (loadServiceSignatures H f) = None"
  by (simp add: loads_def loadServiceSignatures_def split: sum.splits prod.splits option.splits)

lemma load_loop_all:
  "\<forall>f\<in>set fs. loads H f \<Longrightarrow>
   load_loop H fs acc = (acc @ map (\<lambda>f. fst (loadServiceSignatures H f)) fs, None)"
  by (induction fs arbitrary: acc) (auto simp: loads_iff split: prod.splits option.splits)

lemma load_loop_fail:
  "\<exists>f\<in>set fs. \<not> loads H f \<Longrightarrow>
   \<exists>f\<in>set fs. \<not> loads H f \<and> snd (load_loop H fs acc) = snd (loadServiceSignatures H f)"
proof (induction fs arbitrary: acc)
  case Nil
  then show ?case by simp
next
  case (Cons f fs)
  show ?case
  proof (cases "loads H f")
    case True
    then obtain loaded where l: "loadServiceSignatures H f = (loaded, None)"
      by (cases "loadServiceSignatures H f") (simp add: loads_iff)
    from Cons.prems True have "\<exists>f\<in>set fs. \<not> loads H f" by auto
    from Cons.IH [OF this, of "acc @ [loaded]"] l show ?thesis by auto
  next
    case False
    then obtain loaded err where l: "loadServiceSignatures H f = (loaded, Some err)"
      by (cases "loadServiceSignatures H f") (auto simp: loads_iff)
    with False show ?thesis by auto
  qed
qed

lemma load_fail_error: "\<not> loads H f \<Longrightarrow> snd (loadServiceSignatures H f) \<noteq> None"
  by (simp add: loads_iff)

section \<open>The claims\<close>

text \<open>
  C1 (first match wins). Let the rulesets of the store, taken source by source in load
  order and within a source in declared order, be \<open>pre @ R1 # post\<close>, where no ruleset
  of \<open>pre\<close> matches the instance and \<open>R1\<close> does. Then \<^verbatim>\<open>Map\<close> on that instance alone
  returns it with the type of \<open>R1\<close>, whatever \<open>post\<close> holds (rulesets that match as
  well, or that would fail if they were evaluated); and in every successful call on a
  sequence holding the instance at position \<open>i\<close>, the element at \<open>i\<close> carries the type
  of \<open>R1\<close> and is part of the output.
\<close>

theorem first_match_wins:
  assumes "all_rulesets rf = pre @ R1 # post"
    and "\<forall>r\<in>set pre. matches E si r = Returns (False, None)"
    and "matches E si R1 = Returns (True, None)"
  shows "Map E rf [si] =
           ([assign_type si (DiscoveryRuleset.Type R1)],
            Returns (Some [assign_type si (DiscoveryRuleset.Type R1)], None)) \<and>
         (\<forall>sis sis' out i.
            Map E rf sis = (sis', Returns (Some out, None)) \<and> i < length sis \<and> sis ! i = si \<longrightarrow>
            sis' ! i = assign_type si (DiscoveryRuleset.Type R1) \<and>
            Service.Type (Service (sis' ! i)) = DiscoveryRuleset.Type R1 \<and>
            sis' ! i \<in> set out)"
proof -
  let ?t = "DiscoveryRuleset.Type R1"
  have c: "classify E rf si = Matched ?t"
    using assms by (rule classify_first)
  then have m: "marked E rf si = assign_type si ?t"
    by (simp add: marked_def)
  have one: "Map E rf [si] = ([assign_type si ?t], Returns (Some [assign_type si ?t], None))"
    using c m by (simp add: Map_completes completes_def is_Matched_def)
  have "sis' ! i = assign_type si ?t \<and> Service.Type (Service (sis' ! i)) = ?t \<and> sis' ! i \<in> set out"
    if run: "Map E rf sis = (sis', Returns (Some out, None))" and i: "i < length sis" "sis ! i = si"
    for sis sis' out i
  proof -
    have s: "sis' ! i = assign_type si ?t"
      using Map_success_shape(1) [OF run] i m by simp
    have "si \<in> set (filter (\<lambda>si. is_Matched (classify E rf si)) sis)"
      using i c by (auto simp: is_Matched_def)
    then have "marked E rf si \<in> set out"
      unfolding Map_success_shape(2) [OF run] by (simp only: set_map) (rule imageI)
    with s m show ?thesis by simp
  qed
  with one show ?thesis by blast
qed

theorem first_match_wins_witness:
  "all_rulesets (store [fileA, fileB]) =
     [] @ image_rules ''A'' ''redis:6'' #
       [image_rules ''B'' ''redis:6'', image_rules ''broken'' ''invalid''] \<and>
   matches image_ruler redis (image_rules ''A'' ''redis:6'') = Returns (True, None) \<and>
   matches image_ruler redis (image_rules ''B'' ''redis:6'') = Returns (True, None) \<and>
   Map image_ruler (store [fileA, fileB]) [redis] =
     ([assign_type redis ''A''], Returns (Some [assign_type redis ''A''], None)) \<and>
   Map image_ruler (store [fileA, fileB]) [redis, redis] =
     ([assign_type redis ''A'', assign_type redis ''A''],
      Returns (Some [assign_type redis ''A'', assign_type redis ''A''], None)) \<and>
   Service.Type (Service (assign_type redis ''A'')) = ''A''"
proof -
  let ?R1 = "image_rules ''A'' ''redis:6''"
  let ?post = "[image_rules ''B'' ''redis:6'', image_rules ''broken'' ''invalid'']"
  have h1: "all_rulesets (store [fileA, fileB]) = [] @ ?R1 # ?post"
    by (simp add: all_rulesets_def store_def fileA_def fileB_def)
  have h2: "\<forall>r\<in>set []. matches image_ruler redis r = Returns (False, None)"
    by simp
  have h3: "matches image_ruler redis ?R1 = Returns (True, None)"
    by (simp add: fixture_defs eval_defs)
  have h4: "matches image_ruler redis (image_rules ''B'' ''redis:6'') = Returns (True, None)"
    by (simp add: fixture_defs eval_defs)
  have t: "DiscoveryRuleset.Type ?R1 = ''A''"
    by (simp add: image_rules_def)
  have run: "Map image_ruler (store [fileA, fileB]) [redis, redis] =
     ([assign_type redis ''A'', assign_type redis ''A''],
      Returns (Some [assign_type redis ''A'', assign_type redis ''A''], None))"
    by (simp add: fixture_defs eval_defs)
  show ?thesis
    using first_match_wins [OF h1 h2 h3] h1 h3 h4 run unfolding t by simp
qed

text \<open>
  C2 (fail fast, nothing partial). Let the instances before \<open>si\<close> be processed to the
  end of the loops, and let the scan of \<open>si\<close> reach a ruleset \<open>R\<close> for which
  \<^verbatim>\<open>matches\<close> returns an error, no earlier ruleset having matched. Then \<^verbatim>\<open>Map\<close> returns
  a nil result with exactly that error, whatever boolean came with it and whatever
  rulesets follow \<open>R\<close>. Moreover, whenever \<^verbatim>\<open>Map\<close> returns an error the result is nil
  and the error is one that \<^verbatim>\<open>matches\<close> returned for an instance of the input and a
  ruleset of the store.
\<close>

theorem fail_fast:
  assumes "all_rulesets rf = pre @ R # post"
    and "\<forall>r\<in>set pre. matches E si r = Returns (False, None)"
    and "matches E si R = Returns (b, Some err)"
    and "\<forall>x\<in>set xs. completes (classify E rf x)"
  shows "snd (Map E rf (xs @ si # ys)) = Returns (None, Some err) \<and>
         (\<forall>sis sis' out e. Map E rf sis = (sis', Returns (out, Some e)) \<longrightarrow>
            out = None \<and>
            (\<exists>x\<in>set sis. \<exists>r\<in>set (all_rulesets rf). \<exists>m. matches E x r = Returns (m, Some e)))"
proof -
  have c: "classify E rf si = Failed err"
    using assms(1-3) by (rule classify_first_error)
  then have "\<not> completes (classify E rf si)"
    by (simp add: completes_def)
  then have first: "snd (Map E rf (xs @ si # ys)) = Returns (None, Some err)"
    using assms(4) c by (simp add: Map_stops halt_def)
  have "out = None \<and>
        (\<exists>x\<in>set sis. \<exists>r\<in>set (all_rulesets rf). \<exists>m. matches E x r = Returns (m, Some e))"
    if run: "Map E rf sis = (sis', Returns (out, Some e))" for sis sis' out e
  proof (cases sis E rf rule: Map_cases)
    case completes
    with run show ?thesis by (simp add: Map_completes)
  next
    case (stops xs' y ys')
    with run have h: "halt (classify E rf y) = Returns (out, Some e)"
      by (simp add: Map_stops)
    from halt_error [OF h] have "out = None" "classify E rf y = Failed e" by simp_all
    moreover from this(2) have "\<exists>r\<in>set (all_rulesets rf). \<exists>m. matches E y r = Returns (m, Some e)"
      by (simp add: classify_all_rulesets rulesets_loop_Failed)
    moreover have "y \<in> set sis" using stops(1) by simp
    ultimately show ?thesis by blast
  qed
  with first show ?thesis by blast
qed

theorem fail_fast_witness:
  "matches image_ruler postgres (image_rules ''broken'' ''invalid'') =
     Returns (False, Some ''cannot compile'') \<and>
   matches image_ruler postgres (image_rules ''pg'' ''postgres:13'') = Returns (True, None) \<and>
   completes (classify image_ruler (store [fileA, fileC]) redis) \<and>
   snd (Map image_ruler (store [fileA, fileC]) ([redis] @ postgres # [redis])) =
     Returns (None, Some ''cannot compile'') \<and>
   Map image_ruler (store [fileC]) [postgres] = ([postgres], Returns (None, Some ''cannot compile''))"
proof -
  let ?rf = "store [fileA, fileC]"
  let ?R = "image_rules ''broken'' ''invalid''"
  have h1: "all_rulesets ?rf = [image_rules ''A'' ''redis:6''] @ ?R # [image_rules ''pg'' ''postgres:13'']"
    by (simp add: all_rulesets_def store_def fileA_def fileC_def)
  have h2: "\<forall>r\<in>set [image_rules ''A'' ''redis:6'']. matches image_ruler postgres r = Returns (False, None)"
    by (simp add: fixture_defs eval_defs)
  have h3: "matches image_ruler postgres ?R = Returns (False, Some ''cannot compile'')"
    by (simp add: fixture_defs eval_defs)
  have h4: "\<forall>x\<in>set [redis]. completes (classify image_ruler ?rf x)"
    by (simp add: fixture_defs eval_defs fileC_def classify_def completes_def)
  have h5: "matches image_ruler postgres (image_rules ''pg'' ''postgres:13'') = Returns (True, None)"
    by (simp add: fixture_defs eval_defs)
  have run: "Map image_ruler (store [fileC]) [postgres] = ([postgres], Returns (None, Some ''cannot compile''))"
    by (simp add: fixture_defs eval_defs fileC_def)
  show ?thesis
    using fail_fast [OF h1 h2 h3 h4, of "[redis]"] h3 h4 h5 run by simp
qed

text \<open>
  C3 (no match is no error). If \<^verbatim>\<open>matches\<close> returns false without an error for the
  instance on every ruleset of the store, then \<^verbatim>\<open>Map\<close> on that instance alone returns
  an empty, non-nil result and no error; wherever the instance stands in an input, the
  call returns what it returns without the instance (the same output, or the same error
  or panic), the instance itself staying as it was in the input; and the instance is
  not an element of any output.
\<close>

theorem non_match_excluded:
  assumes "\<forall>r\<in>set (all_rulesets rf). matches E si r = Returns (False, None)"
  shows "Map E rf [si] = ([si], Returns (Some [], None)) \<and>
         snd (Map E rf (xs @ si # ys)) = snd (Map E rf (xs @ ys)) \<and>
         fst (Map E rf (xs @ si # ys)) =
           take (length xs) (fst (Map E rf (xs @ ys))) @ si #
             drop (length xs) (fst (Map E rf (xs @ ys))) \<and>
         (\<forall>sis sis' out. Map E rf sis = (sis', Returns (Some out, None)) \<longrightarrow> si \<notin> set out)"
proof -
  have c: "classify E rf si = NoMatch"
    using assms by (simp add: classify_NoMatch)
  have skip: "Map E rf (xs @ si # ys) =
     (case Map E rf (xs @ ys) of
        (zs, r) \<Rightarrow> (take (length xs) zs @ si # drop (length xs) zs, r))" for xs ys
    by (simp add: Map_eq_Map_list Map_list_skip [OF c])
  have one: "Map E rf [si] = ([si], Returns (Some [], None))"
    using c by (simp add: Map_completes completes_def is_Matched_def marked_def)
  have "si \<notin> set out" if run: "Map E rf sis = (sis', Returns (Some out, None))" for sis sis' out
    using marked_eq_NoMatch [OF c] unfolding Map_success_shape(2) [OF run] by auto
  moreover have "snd (Map E rf (xs @ si # ys)) = snd (Map E rf (xs @ ys))"
    by (simp add: skip split: prod.splits)
  moreover have "fst (Map E rf (xs @ si # ys)) =
           take (length xs) (fst (Map E rf (xs @ ys))) @ si #
             drop (length xs) (fst (Map E rf (xs @ ys)))"
    by (simp add: skip split: prod.splits)
  ultimately show ?thesis using one by blast
qed

theorem non_match_excluded_witness:
  "all_rulesets (store [fileA]) = [image_rules ''A'' ''redis:6''] \<and>
   matches image_ruler postgres (image_rules ''A'' ''redis:6'') = Returns (False, None) \<and>
   Map image_ruler (store [fileA]) [postgres] = ([postgres], Returns (Some [], None)) \<and>
   Map image_ruler (store [fileA]) [redis] =
     ([assign_type redis ''A''], Returns (Some [assign_type redis ''A''], None)) \<and>
   snd (Map image_ruler (store [fileA]) ([redis] @ postgres # [])) =
     Returns (Some [assign_type redis ''A''], None) \<and>
   postgres \<notin> set [assign_type redis ''A'']"
proof -
  have h: "\<forall>r\<in>set (all_rulesets (store [fileA])). matches image_ruler postgres r = Returns (False, None)"
    by (simp add: fixture_defs eval_defs)
  have run: "Map image_ruler (store [fileA]) [redis] =
     ([assign_type redis ''A''], Returns (Some [assign_type redis ''A''], None))"
    by (simp add: fixture_defs eval_defs)
  have rs: "all_rulesets (store [fileA]) = [image_rules ''A'' ''redis:6'']"
    by (simp add: all_rulesets_def store_def fileA_def)
  note t = non_match_excluded [OF h, of "[redis]" "[]"]
  from t run have "postgres \<notin> set [assign_type redis ''A'']"
    by blast
  with t h run rs show ?thesis by simp
qed

text \<open>
  C4 (order preservation). When \<^verbatim>\<open>Map\<close> returns a result, the result lists the matched
  instances of the input in input order, each with its assigned type: it is the input
  filtered by "some ruleset matched", with the types assigned, and it is a subsequence
  of the caller's slice as the call leaves it.
\<close>

theorem order_preserved:
  assumes "Map E rf sis = (sis', Returns (Some out, None))"
  shows "out = map (marked E rf) (filter (\<lambda>si. is_Matched (classify E rf si)) sis) \<and>
         sis' = map (marked E rf) sis \<and>
         out = filter (\<lambda>si. is_Matched (classify E rf si)) sis' \<and>
         subseq out sis'"
proof -
  note shape = Map_success_shape [OF assms]
  have f: "out = filter (\<lambda>si. is_Matched (classify E rf si)) sis'"
    unfolding shape by (simp only: filter_Matched_marked)
  have "subseq (filter (\<lambda>si. is_Matched (classify E rf si)) sis') sis'"
    by simp
  with f have "subseq out sis'" by simp
  with shape f show ?thesis by simp
qed

theorem order_preserved_witness:
  "Map image_ruler (store [fileA])
     [instance_of [''/one''] ''redis:6'', postgres, instance_of [''/two''] ''redis:6''] =
     ([assign_type (instance_of [''/one''] ''redis:6'') ''A'', postgres,
       assign_type (instance_of [''/two''] ''redis:6'') ''A''],
      Returns (Some [assign_type (instance_of [''/one''] ''redis:6'') ''A'',
                     assign_type (instance_of [''/two''] ''redis:6'') ''A''], None)) \<and>
   subseq [assign_type (instance_of [''/one''] ''redis:6'') ''A'',
           assign_type (instance_of [''/two''] ''redis:6'') ''A'']
     [assign_type (instance_of [''/one''] ''redis:6'') ''A'', postgres,
       assign_type (instance_of [''/two''] ''redis:6'') ''A'']"
proof -
  have run: "Map image_ruler (store [fileA])
     [instance_of [''/one''] ''redis:6'', postgres, instance_of [''/two''] ''redis:6''] =
     ([assign_type (instance_of [''/one''] ''redis:6'') ''A'', postgres,
       assign_type (instance_of [''/two''] ''redis:6'') ''A''],
      Returns (Some [assign_type (instance_of [''/one''] ''redis:6'') ''A'',
                     assign_type (instance_of [''/two''] ''redis:6'') ''A''], None))"
    by (simp add: fixture_defs eval_defs)
  from order_preserved [OF run] have
    "subseq [assign_type (instance_of [''/one''] ''redis:6'') ''A'',
           assign_type (instance_of [''/two''] ''redis:6'') ''A'']
     [assign_type (instance_of [''/one''] ''redis:6'') ''A'', postgres,
       assign_type (instance_of [''/two''] ''redis:6'') ''A'']"
    by (elim conjE)
  with run show ?thesis by (intro conjI)
qed

text \<open>
  C9 (idempotence). Against the same store, the verdict of \<^verbatim>\<open>matches\<close> and of the whole
  scan depends on the instance only through its attribute map, which does not contain
  the assigned type. So classifying again what a call of \<^verbatim>\<open>Map\<close> left in the caller's
  slice gives the same slice, the same result and the same error or panic; and
  classifying the returned instances again returns them unchanged.
\<close>

theorem idempotent:
  "Map E rf (fst (Map E rf sis)) = Map E rf sis \<and>
   (\<forall>sis' out. Map E rf sis = (sis', Returns (Some out, None)) \<longrightarrow>
      Map E rf out = (out, Returns (Some out, None))) \<and>
   (\<forall>si si'. matches_sm si = matches_sm si' \<longrightarrow>
      (\<forall>r. matches E si r = matches E si' r) \<and> classify E rf si = classify E rf si')"
proof -
  have "Map E rf out = (out, Returns (Some out, None))"
    if run: "Map E rf sis = (sis', Returns (Some out, None))" for sis' out
  proof -
    let ?P = "\<lambda>si. is_Matched (classify E rf si)"
    have out: "out = map (marked E rf) (filter ?P sis)"
      by (rule Map_success_shape(2) [OF run])
    have "\<forall>si\<in>set out. completes (classify E rf si)"
      unfolding out by (auto simp: is_Matched_def completes_def split: scan.splits)
    from Map_completes [OF this] show ?thesis
      unfolding out by (simp add: filter_Matched_marked)
  qed
  moreover have "(\<forall>r. matches E si r = matches E si' r) \<and> classify E rf si = classify E rf si'"
    if "matches_sm si = matches_sm si'" for si si'
    using that by (simp add: classify_all_rulesets matches_depends_on_sm [of si si']
        rulesets_loop_depends_on_sm [of si si'])
  ultimately show ?thesis using Map_again [of E rf sis] by blast
qed

theorem idempotent_witness:
  "Map image_ruler (store [fileA, fileB]) [redis, redis] =
     ([assign_type redis ''A'', assign_type redis ''A''],
      Returns (Some [assign_type redis ''A'', assign_type redis ''A''], None)) \<and>
   Map image_ruler (store [fileA, fileB]) [assign_type redis ''A'', assign_type redis ''A''] =
     ([assign_type redis ''A'', assign_type redis ''A''],
      Returns (Some [assign_type redis ''A'', assign_type redis ''A''], None)) \<and>
   matches_sm redis = matches_sm (assign_type redis ''B'') \<and>
   classify image_ruler (store [fileA, fileB]) redis =
     classify image_ruler (store [fileA, fileB]) (assign_type redis ''B'')"
proof -
  have run: "Map image_ruler (store [fileA, fileB]) [redis, redis] =
     ([assign_type redis ''A'', assign_type redis ''A''],
      Returns (Some [assign_type redis ''A'', assign_type redis ''A''], None))"
    by (simp add: fixture_defs eval_defs)
  have sm: "matches_sm redis = matches_sm (assign_type redis ''B'')"
    by (simp add: matches_sm_def assign_type_def redis_def instance_of_def sm_fixed_def)
  note t = idempotent [of image_ruler "store [fileA, fileB]" "[redis, redis]"]
  from t run have again: "Map image_ruler (store [fileA, fileB])
       [assign_type redis ''A'', assign_type redis ''A''] =
     ([assign_type redis ''A'', assign_type redis ''A''],
      Returns (Some [assign_type redis ''A'', assign_type redis ''A''], None))"
    by blast
  from t sm have "classify image_ruler (store [fileA, fileB]) redis =
     classify image_ruler (store [fileA, fileB]) (assign_type redis ''B'')"
    by blast
  with run again sm show ?thesis by (intro conjI)
qed

text \<open>
  C10 (the input is written in place). When \<^verbatim>\<open>Map\<close> returns an error, there is a
  position \<open>k\<close> whose scan returned that error; in the caller's slice every instance
  before \<open>k\<close> that matched holds its newly assigned type, every other instance is as it
  was, and the length is unchanged. When \<^verbatim>\<open>Map\<close> returns a result, every output entry
  equals an element of the caller's slice as the call leaves it.
\<close>

theorem input_mutated_in_place:
  "(\<forall>sis' err. Map E rf sis = (sis', Returns (None, Some err)) \<longrightarrow>
      (\<exists>k<length sis.
         classify E rf (sis ! k) = Failed err \<and> length sis' = length sis \<and>
         (\<forall>i<k. \<forall>t. classify E rf (sis ! i) = Matched t \<longrightarrow> sis' ! i = assign_type (sis ! i) t) \<and>
         (\<forall>i<k. classify E rf (sis ! i) = NoMatch \<longrightarrow> sis' ! i = sis ! i) \<and>
         (\<forall>i<k. completes (classify E rf (sis ! i))) \<and>
         (\<forall>i. k \<le> i \<and> i < length sis \<longrightarrow> sis' ! i = sis ! i))) \<and>
   (\<forall>sis' out. Map E rf sis = (sis', Returns (Some out, None)) \<longrightarrow> set out \<subseteq> set sis')"
proof -
  have "\<exists>k<length sis.
         classify E rf (sis ! k) = Failed err \<and> length sis' = length sis \<and>
         (\<forall>i<k. \<forall>t. classify E rf (sis ! i) = Matched t \<longrightarrow> sis' ! i = assign_type (sis ! i) t) \<and>
         (\<forall>i<k. classify E rf (sis ! i) = NoMatch \<longrightarrow> sis' ! i = sis ! i) \<and>
         (\<forall>i<k. completes (classify E rf (sis ! i))) \<and>
         (\<forall>i. k \<le> i \<and> i < length sis \<longrightarrow> sis' ! i = sis ! i)"
    if run: "Map E rf sis = (sis', Returns (None, Some err))" for sis' err
  proof (cases sis E rf rule: Map_cases)
    case completes
    with run show ?thesis by (simp add: Map_completes)
  next
    case (stops xs y ys)
    from run stops have sis': "sis' = map (marked E rf) xs @ y # ys"
      and h: "halt (classify E rf y) = Returns (None, Some err)"
      by (simp_all add: Map_stops)
    let ?k = "length xs"
    have k: "?k < length sis" using stops(1) by simp
    have y: "sis ! ?k = y" using stops(1) by simp
    have before: "sis ! i = xs ! i" "sis' ! i = marked E rf (xs ! i)"
      "completes (classify E rf (xs ! i))" if "i < ?k" for i
      using that stops(1,2) sis' by (simp_all add: nth_append)
    have after: "sis' ! i = sis ! i" if "?k \<le> i" for i
      using that stops(1) sis' by (simp add: nth_append)
    show ?thesis
    proof (intro exI [of _ ?k] conjI allI impI)
      show "?k < length sis" by (rule k)
      show "classify E rf (sis ! ?k) = Failed err" using halt_Failed [OF h] y by simp
      show "length sis' = length sis" using stops(1) sis' by simp
      show "sis' ! i = assign_type (sis ! i) t"
        if "i < ?k" "classify E rf (sis ! i) = Matched t" for i t
        using that before [of i] by (simp add: marked_Matched)
      show "sis' ! i = sis ! i" if "i < ?k" "classify E rf (sis ! i) = NoMatch" for i
        using that before [of i] by (simp add: marked_NoMatch)
      show "completes (classify E rf (sis ! i))" if "i < ?k" for i
        using that before [of i] by simp
      show "sis' ! i = sis ! i" if "?k \<le> i \<and> i < length sis" for i
        using that after [of i] by simp
    qed
  qed
  moreover have "set out \<subseteq> set sis'"
    if run: "Map E rf sis = (sis', Returns (Some out, None))" for sis' out
    unfolding Map_success_shape [OF run] by auto
  ultimately show ?thesis by blast
qed

theorem input_mutated_in_place_witness:
  "Map image_ruler (store [fileA, fileC]) [redis, postgres] =
     ([assign_type redis ''A'', postgres], Returns (None, Some ''cannot compile'')) \<and>
   classify image_ruler (store [fileA, fileC]) ([redis, postgres] ! 0) = Matched ''A'' \<and>
   [assign_type redis ''A'', postgres] \<noteq> [redis, postgres] \<and>
   Service.Type (Service ([assign_type redis ''A'', postgres] ! 0)) = ''A'' \<and>
   Service.Type (Service ([redis, postgres] ! 0)) = [] \<and>
   (\<exists>k<length [redis, postgres].
      classify image_ruler (store [fileA, fileC]) ([redis, postgres] ! k) = Failed ''cannot compile'')"
proof -
  let ?rf = "store [fileA, fileC]"
  have run: "Map image_ruler ?rf [redis, postgres] =
     ([assign_type redis ''A'', postgres], Returns (None, Some ''cannot compile''))"
    by (simp add: fixture_defs eval_defs fileC_def)
  have c: "classify image_ruler ?rf ([redis, postgres] ! 0) = Matched ''A''"
    by (simp add: fixture_defs eval_defs fileC_def classify_def)
  have d: "[assign_type redis ''A'', postgres] \<noteq> [redis, postgres]"
    "Service.Type (Service ([redis, postgres] ! 0)) = []"
    by (simp_all add: assign_type_def redis_def instance_of_def)
  from input_mutated_in_place [of image_ruler ?rf "[redis, postgres]"] run
  have "\<exists>k<length [redis, postgres].
      classify image_ruler ?rf ([redis, postgres] ! k) = Failed ''cannot compile''"
    by blast
  with run c d show ?thesis by simp
qed

text \<open>
  C6 (label namespacing). In the attribute map of an instance, every container label
  \<open>(k, v)\<close> is found under \<^verbatim>\<open>ContainerLabel-\<close> followed by \<open>k\<close> and every port label
  \<open>(k, w)\<close> under \<^verbatim>\<open>NetworkLabel-\<close> followed by \<open>k\<close>; the two names differ for every pair
  of keys, so a key present in both collections gives two attributes, each with its own
  value. The keys of each collection are pairwise distinct, as in a Go map.
\<close>

theorem labels_namespaced:
  assumes "matches_sm si = Some sm"
    and "distinct (map fst (Container.Labels (Container si)))"
    and "distinct (map fst (Port.Labels (Port si)))"
  shows "(\<forall>k v. (k, v) \<in> set (Container.Labels (Container si)) \<longrightarrow>
            sm (''ContainerLabel-'' @ k) = Some (StringVal v)) \<and>
         (\<forall>k w. (k, w) \<in> set (Port.Labels (Port si)) \<longrightarrow>
            sm (''NetworkLabel-'' @ k) = Some (StringVal w)) \<and>
         (\<forall>k k'. ''ContainerLabel-'' @ k \<noteq> ''NetworkLabel-'' @ k') \<and>
         (\<forall>k v w. (k, v) \<in> set (Container.Labels (Container si)) \<and>
                  (k, w) \<in> set (Port.Labels (Port si)) \<longrightarrow>
            sm (''ContainerLabel-'' @ k) = Some (StringVal v) \<and>
            sm (''NetworkLabel-'' @ k) = Some (StringVal w) \<and>
            ''ContainerLabel-'' @ k \<noteq> ''NetworkLabel-'' @ k)"
  using sm_labels [OF assms(1)] assms(2,3) by simp

theorem labels_namespaced_witness:
  "matches_sm redis \<noteq> None \<and>
   distinct (map fst (Container.Labels (Container redis))) \<and>
   distinct (map fst (Port.Labels (Port redis))) \<and>
   (''app'', ''web'') \<in> set (Container.Labels (Container redis)) \<and>
   (''app'', ''http'') \<in> set (Port.Labels (Port redis)) \<and>
   the (matches_sm redis) (''ContainerLabel-'' @ ''app'') = Some (StringVal ''web'') \<and>
   the (matches_sm redis) (''NetworkLabel-'' @ ''app'') = Some (StringVal ''http'')"
proof -
  have ne: "matches_sm redis \<noteq> None"
    by (simp add: matches_sm_def redis_def instance_of_def)
  then have h1: "matches_sm redis = Some (the (matches_sm redis))"
    by simp
  have h2: "distinct (map fst (Container.Labels (Container redis)))"
    and h3: "distinct (map fst (Port.Labels (Port redis)))"
    and h4: "(''app'', ''web'') \<in> set (Container.Labels (Container redis))"
    and h5: "(''app'', ''http'') \<in> set (Port.Labels (Port redis))"
    by (simp_all add: redis_def instance_of_def)
  from labels_namespaced [OF h1 h2 h3] h4 h5
  have "the (matches_sm redis) (''ContainerLabel-'' @ ''app'') = Some (StringVal ''web'') \<and>
        the (matches_sm redis) (''NetworkLabel-'' @ ''app'') = Some (StringVal ''http'')"
    by blast
  with ne h2 h3 h4 h5 show ?thesis by blast
qed

text \<open>
  C7 (fixed projection keys), as the specification states it: the non-label keys of the
  attribute map are exactly the nine keys for id, first name, image, command, state,
  address, endpoint kind, public port and private port. This fails on the code, which
  also projects \<^verbatim>\<open>ContainerPod\<close>.
\<close>

theorem fixed_keys_counterexample:
  "map_option non_label_keys (matches_sm redis) \<noteq> Some spec_fixed_keys \<and>
   map_option (\<lambda>sm. sm ''ContainerPod'') (matches_sm redis) = Some (Some (StringVal ''pod-1'')) \<and>
   \<not> label_key ''ContainerPod'' \<and> ''ContainerPod'' \<notin> spec_fixed_keys"
proof -
  have ne: "matches_sm redis \<noteq> None"
    by (simp add: matches_sm_def redis_def instance_of_def)
  then obtain sm where sm: "matches_sm redis = Some sm" by blast
  have pod: "sm ''ContainerPod'' = Some (StringVal ''pod-1'')"
    using sm_fixed_values(4) [OF sm] by (simp add: redis_def instance_of_def)
  have nl: "\<not> label_key ''ContainerPod''"
    by (simp add: label_key_def)
  have ns: "''ContainerPod'' \<notin> spec_fixed_keys"
    by (simp add: spec_fixed_keys_def)
  from pod nl have "''ContainerPod'' \<in> non_label_keys sm"
    by (auto simp: non_label_keys_def)
  with ns have "non_label_keys sm \<noteq> spec_fixed_keys" by blast
  with sm pod nl ns show ?thesis by simp
qed

text \<open>
  C7, amended. For every instance with an attribute map, the non-label keys of the map
  are exactly the ten keys of the composite literal (the nine above and
  \<^verbatim>\<open>ContainerPod\<close>), each holding the corresponding field, the name being the first of
  \<^verbatim>\<open>Names\<close>; the two port values are decimal strings: non-empty, made of digits, and
  reading them in base ten gives the port number.
\<close>

theorem fixed_projection_keys:
  assumes "matches_sm si = Some sm"
  shows "non_label_keys sm = fixed_keys \<and>
         sm ''ContainerID'' = Some (StringVal (ID (Container si))) \<and>
         sm ''ContainerName'' = Some (StringVal (Names (Container si) ! 0)) \<and>
         sm ''ContainerImage'' = Some (StringVal (Image (Container si))) \<and>
         sm ''ContainerPod'' = Some (StringVal (Pod (Container si))) \<and>
         sm ''ContainerCommand'' = Some (StringVal (Command (Container si))) \<and>
         sm ''ContainerState'' = Some (StringVal (State (Container si))) \<and>
         sm ''NetworkIP'' = Some (StringVal (IP (Port si))) \<and>
         sm ''NetworkType'' = Some (PortTypeVal (Port.Type (Port si))) \<and>
         sm ''NetworkPublicPort'' = Some (StringVal (FormatUint (ucast (PublicPort (Port si))))) \<and>
         sm ''NetworkPrivatePort'' = Some (StringVal (FormatUint (ucast (PrivatePort (Port si))))) \<and>
         read_decimal (FormatUint (ucast (PublicPort (Port si)))) = unat (PublicPort (Port si)) \<and>
         read_decimal (FormatUint (ucast (PrivatePort (Port si)))) = unat (PrivatePort (Port si)) \<and>
         FormatUint (ucast (PublicPort (Port si))) \<noteq> [] \<and>
         FormatUint (ucast (PrivatePort (Port si))) \<noteq> [] \<and>
         set (FormatUint (ucast (PublicPort (Port si)))) \<subseteq> set ''0123456789'' \<and>
         set (FormatUint (ucast (PrivatePort (Port si)))) \<subseteq> set ''0123456789''"
  by (intro conjI non_label_keys_sm [OF assms] sm_fixed_values [OF assms] FormatUint_port)

theorem fixed_projection_keys_witness:
  "matches_sm redis \<noteq> None \<and>
   non_label_keys (the (matches_sm redis)) = fixed_keys \<and>
   the (matches_sm redis) ''NetworkPublicPort'' = Some (StringVal ''8080'') \<and>
   the (matches_sm redis) ''NetworkPrivatePort'' = Some (StringVal ''80'') \<and>
   the (matches_sm redis) ''ContainerName'' = Some (StringVal ''/cache'')"
proof -
  have ne: "matches_sm redis \<noteq> None"
    by (simp add: matches_sm_def redis_def instance_of_def)
  then have h: "matches_sm redis = Some (the (matches_sm redis))"
    by simp
  have p: "FormatUint (ucast (PublicPort (Port redis))) = ''8080''"
    "FormatUint (ucast (PrivatePort (Port redis))) = ''80''"
    by (simp_all add: redis_def instance_of_def FormatUint_def decimal.simps digit_def)
  have n: "Names (Container redis) ! 0 = ''/cache''"
    by (simp add: redis_def instance_of_def)
  from fixed_projection_keys [OF h] ne show ?thesis
    unfolding p n by blast
qed

text \<open>
  C8 (first name). \<^verbatim>\<open>matches\<close> reads \<^verbatim>\<open>si.Container.Names[0]\<close> without a check. With at
  least one name the attribute map exists, holds that name under \<^verbatim>\<open>ContainerName\<close>, and
  \<^verbatim>\<open>matches\<close> never panics. With no name there is no attribute map and no fallback:
  \<^verbatim>\<open>matches\<close> never returns a verdict with a nil error; it panics as soon as the rules
  have compiled.
\<close>

theorem first_name_access:
  "(Names (Container si) \<noteq> [] \<longrightarrow>
      (\<exists>sm. matches_sm si = Some sm \<and>
            sm ''ContainerName'' = Some (StringVal (Names (Container si) ! 0))) \<and>
      matches E si r \<noteq> Panics) \<and>
   (Names (Container si) = [] \<longrightarrow>
      matches_sm si = None \<and>
      (\<forall>b. matches E si r \<noteq> Returns (b, None)) \<and>
      (\<forall>j g. Marshal E (Rules r) = Inr j \<and> NewRulerWithJson E j = Inr g \<longrightarrow>
         matches E si r = Panics))"
proof (intro conjI impI)
  assume n: "Names (Container si) \<noteq> []"
  then obtain sm where sm: "matches_sm si = Some sm"
    by (simp add: matches_sm_Some)
  with sm_fixed_values(2) [OF sm]
  show "\<exists>sm. matches_sm si = Some sm \<and>
            sm ''ContainerName'' = Some (StringVal (Names (Container si) ! 0))"
    by blast
  show "matches E si r \<noteq> Panics"
    using sm by (simp add: matches_def split: sum.splits)
next
  assume n: "Names (Container si) = []"
  then show none: "matches_sm si = None"
    by (simp add: matches_sm_def)
  show "\<forall>b. matches E si r \<noteq> Returns (b, None)"
    using none by (simp add: matches_def split: sum.splits)
  show "\<forall>j g. Marshal E (Rules r) = Inr j \<and> NewRulerWithJson E j = Inr g \<longrightarrow>
         matches E si r = Panics"
    using none by (simp add: matches_def)
qed

theorem first_name_access_witness:
  "Names (Container redis) \<noteq> [] \<and>
   matches image_ruler redis (image_rules ''A'' ''redis:6'') \<noteq> Panics \<and>
   Names (Container (instance_of [] ''redis:6'')) = [] \<and>
   matches_sm (instance_of [] ''redis:6'') = None \<and>
   Marshal image_ruler (Rules (image_rules ''A'' ''redis:6'')) = Inr ''redis:6'' \<and>
   NewRulerWithJson image_ruler ''redis:6'' = Inr ''redis:6'' \<and>
   matches image_ruler (instance_of [] ''redis:6'') (image_rules ''A'' ''redis:6'') = Panics \<and>
   snd (Map image_ruler (store [fileA]) [instance_of [] ''redis:6'']) = Panics"
proof -
  let ?r = "image_rules ''A'' ''redis:6''"
  let ?z = "instance_of [] ''redis:6''"
  have h1: "Names (Container redis) \<noteq> []"
    and h2: "Names (Container ?z) = []"
    by (simp_all add: redis_def instance_of_def)
  have h3: "Marshal image_ruler (Rules ?r) = Inr ''redis:6''"
    and h4: "NewRulerWithJson image_ruler ''redis:6'' = Inr ''redis:6''"
    by (simp_all add: image_ruler_def image_rules_def)
  from first_name_access [of redis image_ruler ?r] h1
  have a: "matches image_ruler redis ?r \<noteq> Panics" by blast
  from first_name_access [of ?z image_ruler ?r] h2 h3 h4
  have b: "matches_sm ?z = None" "matches image_ruler ?z ?r = Panics" by blast+
  have c: "snd (Map image_ruler (store [fileA]) [?z]) = Panics"
    using b(2) by (simp add: Map_eq_Map_list store_def fileA_def)
  from h1 a h2 b h3 h4 c show ?thesis by blast
qed

text \<open>
  C5 (construction is all or nothing). With the plugin built and \<open>files\<close> the configured
  list: an empty list gives no filter and the error "servicesFiles configuration value
  missing"; a list with a source that cannot be read or decoded gives no filter and the
  error of such a source; a list of sources that all load gives a filter whose rule
  sources are the loaded ones in configured order, and no error. A filter is returned
  only in the last case, and a filter is missing exactly when an error is returned.
\<close>

theorem construction_atomic:
  "(\<forall>plugin. NewPlugin H name config = Inr plugin \<and>
        GetStringSlice H plugin ''servicesfiles'' = [] \<longrightarrow>
      NewRuleFilter H name config = (None, Some ''servicesFiles configuration value missing'')) \<and>
   (\<forall>plugin. NewPlugin H name config = Inr plugin \<and>
        (\<exists>f\<in>set (GetStringSlice H plugin ''servicesfiles''). \<not> loads H f) \<longrightarrow>
      fst (NewRuleFilter H name config) = None \<and>
      (\<exists>f\<in>set (GetStringSlice H plugin ''servicesfiles''). \<exists>err.
          \<not> loads H f \<and> snd (loadServiceSignatures H f) = Some err \<and>
          snd (NewRuleFilter H name config) = Some err)) \<and>
   (\<forall>plugin. NewPlugin H name config = Inr plugin \<and>
        GetStringSlice H plugin ''servicesfiles'' \<noteq> [] \<and>
        (\<forall>f\<in>set (GetStringSlice H plugin ''servicesfiles''). loads H f) \<longrightarrow>
      NewRuleFilter H name config =
        (Some \<lparr>Plugin = plugin,
               serviceRules = map (\<lambda>f. fst (loadServiceSignatures H f))
                                (GetStringSlice H plugin ''servicesfiles'')\<rparr>, None)) \<and>
   (\<forall>rf err. NewRuleFilter H name config = (Some rf, err) \<longrightarrow>
      err = None \<and> NewPlugin H name config = Inr (Plugin rf) \<and>
      GetStringSlice H (Plugin rf) ''servicesfiles'' \<noteq> [] \<and>
      (\<forall>f\<in>set (GetStringSlice H (Plugin rf) ''servicesfiles''). loads H f) \<and>
      serviceRules rf = map (\<lambda>f. fst (loadServiceSignatures H f))
                          (GetStringSlice H (Plugin rf) ''servicesfiles'')) \<and>
   (fst (NewRuleFilter H name config) = None \<longleftrightarrow> snd (NewRuleFilter H name config) \<noteq> None)"
proof -
  let ?N = "NewRuleFilter H name config"
  let ?files = "\<lambda>plugin. GetStringSlice H plugin ''servicesfiles''"
  let ?load = "\<lambda>f. fst (loadServiceSignatures H f)"
  have empty: "?N = (None, Some ''servicesFiles configuration value missing'')"
    if "NewPlugin H name config = Inr plugin" "?files plugin = []" for plugin
    using that by (simp add: NewRuleFilter_def)
  have bad: "fst ?N = None \<and>
      (\<exists>f\<in>set (?files plugin). \<exists>err. \<not> loads H f \<and>
          snd (loadServiceSignatures H f) = Some err \<and> snd ?N = Some err)"
    if p: "NewPlugin H name config = Inr plugin" and b: "\<exists>f\<in>set (?files plugin). \<not> loads H f"
    for plugin
  proof -
    from load_loop_fail [OF b, of "[]"] obtain f where
      f: "f \<in> set (?files plugin)" "\<not> loads H f"
        "snd (load_loop H (?files plugin) []) = snd (loadServiceSignatures H f)"
      by blast
    from load_fail_error [OF f(2)] obtain err where e: "snd (loadServiceSignatures H f) = Some err"
      by blast
    from f(1) have ne: "?files plugin \<noteq> []" by auto
    obtain sigs where l: "load_loop H (?files plugin) [] = (sigs, Some err)"
      using f(3) e by (cases "load_loop H (?files plugin) []") simp
    have "?N = (None, Some err)"
      using p ne l by (simp add: NewRuleFilter_def)
    with f e show ?thesis by auto
  qed
  have good: "?N = (Some \<lparr>Plugin = plugin, serviceRules = map ?load (?files plugin)\<rparr>, None)"
    if "NewPlugin H name config = Inr plugin" "?files plugin \<noteq> []"
      "\<forall>f\<in>set (?files plugin). loads H f" for plugin
    using that by (simp add: NewRuleFilter_def load_loop_all)
  have only: "err = None \<and> NewPlugin H name config = Inr (Plugin rf) \<and>
      ?files (Plugin rf) \<noteq> [] \<and> (\<forall>f\<in>set (?files (Plugin rf)). loads H f) \<and>
      serviceRules rf = map ?load (?files (Plugin rf))"
    if r: "?N = (Some rf, err)" for rf err
  proof (cases "NewPlugin H name config")
    case (Inl e)
    with r show ?thesis by (simp add: NewRuleFilter_def)
  next
    case (Inr plugin)
    show ?thesis
    proof (cases "?files plugin = []")
      case True
      from empty [OF Inr True] r show ?thesis by simp
    next
      case False
      show ?thesis
      proof (cases "\<forall>f\<in>set (?files plugin). loads H f")
        case True
        from good [OF Inr False True] r Inr False True show ?thesis by auto
      next
        case False
        then have "\<exists>f\<in>set (?files plugin). \<not> loads H f" by simp
        from bad [OF Inr this] r show ?thesis by simp
      qed
    qed
  qed
  have iff: "fst ?N = None \<longleftrightarrow> snd ?N \<noteq> None"
  proof (cases "NewPlugin H name config")
    case (Inl e)
    then show ?thesis by (simp add: NewRuleFilter_def)
  next
    case (Inr plugin)
    show ?thesis
    proof (cases "?files plugin = []")
      case True
      from empty [OF Inr True] show ?thesis by simp
    next
      case False
      show ?thesis
      proof (cases "\<forall>f\<in>set (?files plugin). loads H f")
        case True
        from good [OF Inr False True] show ?thesis by simp
      next
        case False
        then have "\<exists>f\<in>set (?files plugin). \<not> loads H f" by simp
        from bad [OF Inr this] show ?thesis by auto
      qed
    qed
  qed
  from empty bad good only iff show ?thesis by blast
qed

theorem construction_atomic_witness:
  "NewRuleFilter files_host ''rules'' [] =
     (None, Some ''servicesFiles configuration value missing'') \<and>
   \<not> loads files_host ''bad.json'' \<and>
   fst (NewRuleFilter files_host ''rules'' [''a.json'', ''bad.json'']) = None \<and>
   snd (NewRuleFilter files_host ''rules'' [''a.json'', ''bad.json'']) \<noteq> None \<and>
   \<not> loads files_host ''missing.json'' \<and>
   fst (NewRuleFilter files_host ''rules'' [''missing.json'', ''b.json'']) = None \<and>
   loads files_host ''a.json'' \<and> loads files_host ''b.json'' \<and>
   NewRuleFilter files_host ''rules'' [''a.json'', ''b.json''] =
     (Some \<lparr>Plugin = [''a.json'', ''b.json''], serviceRules = [fileA, fileB]\<rparr>, None)"
proof -
  have p: "NewPlugin files_host ''rules'' config = Inr config" for config
    by (simp add: files_host_def)
  have g: "GetStringSlice files_host plugin ''servicesfiles'' = plugin" for plugin
    by (simp add: files_host_def)
  have l: "loads files_host ''a.json''" "loads files_host ''b.json''"
    "\<not> loads files_host ''bad.json''" "\<not> loads files_host ''missing.json''"
    by (simp_all add: loads_def files_host_def)
  have v: "fst (loadServiceSignatures files_host ''a.json'') = fileA"
    "fst (loadServiceSignatures files_host ''b.json'') = fileB"
    by (simp_all add: loadServiceSignatures_def files_host_def)
  note t = construction_atomic [of files_host "''rules''"]
  from t [of "[]"] p [of "[]"] g [of "[]"]
  have a: "NewRuleFilter files_host ''rules'' [] =
     (None, Some ''servicesFiles configuration value missing'')"
    by blast
  have "\<exists>f\<in>set (GetStringSlice files_host [''a.json'', ''bad.json''] ''servicesfiles'').
          \<not> loads files_host f"
    using l(3) by (simp add: g)
  with t [of "[''a.json'', ''bad.json'']"] p [of "[''a.json'', ''bad.json'']"]
  have b: "fst (NewRuleFilter files_host ''rules'' [''a.json'', ''bad.json'']) = None"
    "snd (NewRuleFilter files_host ''rules'' [''a.json'', ''bad.json'']) \<noteq> None"
    by blast+
  have "\<exists>f\<in>set (GetStringSlice files_host [''missing.json'', ''b.json''] ''servicesfiles'').
          \<not> loads files_host f"
    using l(4) by (simp add: g)
  with t [of "[''missing.json'', ''b.json'']"] p [of "[''missing.json'', ''b.json'']"]
  have c: "fst (NewRuleFilter files_host ''rules'' [''missing.json'', ''b.json'']) = None"
    by blast
  have "GetStringSlice files_host [''a.json'', ''b.json''] ''servicesfiles'' \<noteq> [] \<and>
        (\<forall>f\<in>set (GetStringSlice files_host [''a.json'', ''b.json''] ''servicesfiles'').
           loads files_host f)"
    using l(1,2) by (simp add: g)
  with t [of "[''a.json'', ''b.json'']"] p [of "[''a.json'', ''b.json'']"]
  have "NewRuleFilter files_host ''rules'' [''a.json'', ''b.json''] =
        (Some \<lparr>Plugin = [''a.json'', ''b.json''],
               serviceRules = map (\<lambda>f. fst (loadServiceSignatures files_host f))
                 (GetStringSlice files_host [''a.json'', ''b.json''] ''servicesfiles'')\<rparr>, None)"
    by blast
  then have d: "NewRuleFilter files_host ''rules'' [''a.json'', ''b.json''] =
     (Some \<lparr>Plugin = [''a.json'', ''b.json''], serviceRules = [fileA, fileB]\<rparr>, None)"
    by (simp add: g v)
  from a b c d l show ?thesis by blast
qed

end
